theory Spec2Isabelle
  imports
    Main
    "HOL-Library.Finite_Map"
    "HOL-Library.Multiset"
    "HOL-Library.Sublist"
    "HOL-Library.Word"
begin

section \<open>The file-to-bead reverse index of package correlation\<close>

text \<open>
  The development embeds \<^verbatim>\<open>BuildFileIndex\<close>, \<^verbatim>\<open>NewFileLookup\<close>, the three lookups
  \<^verbatim>\<open>LookupByFile\<close>, \<^verbatim>\<open>LookupByFileGlob\<close>, \<^verbatim>\<open>GetHotspots\<close> and the helpers
  \<^verbatim>\<open>normalizePath\<close> and \<^verbatim>\<open>containsBeadRef\<close>.

  Go strings are byte sequences: \<^typ>\<open>string\<close>. A Go map is a finite map
  (\<^typ>\<open>('k, 'v) fmap\<close>); the order in which \<^verbatim>\<open>range\<close> visits its keys is not
  fixed by the language, so every \<^verbatim>\<open>range\<close> over a map takes the visiting order as an
  argument. A pointer that may be nil is an \<^typ>\<open>'a option\<close>; a nil dereference is the
  error value \<open>NilPointerDereference\<close>. A \<^verbatim>\<open>time.Time\<close> is the instant it denotes, an
  \<^typ>\<open>int\<close>, so that \<^verbatim>\<open>t.After(u)\<close> is \<open>u < t\<close>. Go's \<^verbatim>\<open>int\<close> is 64 bits wide:
  the changed-line counters are \<^typ>\<open>64 word\<close> and their sum wraps; lengths and counts of
  slices are \<^typ>\<open>int\<close>.
\<close>

subsection \<open>Library functions of package strings\<close>

text \<open>\<^verbatim>\<open>strings.ReplaceAll(s, old, new)\<close> for one-byte \<open>old\<close> and \<open>new\<close>.\<close>

definition ReplaceAll :: "string \<Rightarrow> char \<Rightarrow> char \<Rightarrow> string" where
  "ReplaceAll s old new = map (\<lambda>c. if c = old then new else c) s"

definition HasPrefix :: "string \<Rightarrow> string \<Rightarrow> bool" where
  "HasPrefix s pre = prefix pre s"

definition TrimPrefix :: "string \<Rightarrow> string \<Rightarrow> string" where
  "TrimPrefix s pre = (if prefix pre s then drop (length pre) s else s)"

definition TrimSuffix :: "string \<Rightarrow> string \<Rightarrow> string" where
  "TrimSuffix s suf = (if suffix suf s then take (length s - length suf) s else s)"

text \<open>The back-slash byte.\<close>

definition backslash :: char where
  "backslash = CHR 0x5C"

subsection \<open>Data\<close>

datatype error = NilPointerDereference | ErrBadPattern

text \<open>
  Modelled from the spec: the declarations of \<^verbatim>\<open>FileChange\<close>, \<^verbatim>\<open>CorrelatedCommit\<close>,
  \<^verbatim>\<open>BeadHistory\<close> and \<^verbatim>\<open>HistoryReport\<close> are not among the sources. The records
  below carry the fields that the index code reads (a changed file's path and line
  counts; a commit's short SHA, timestamp and files; a bead's title, status and commits;
  the report's map from bead ID to history).
\<close>

record FileChange =
  Path :: string
  Insertions :: "64 word"
  Deletions :: "64 word"

record CorrelatedCommit =
  ShortSHA :: string
  Timestamp :: int
  Files :: "FileChange list"

record BeadHistory =
  Title :: string
  Status :: string
  Commits :: "CorrelatedCommit list"

record HistoryReport =
  Histories :: "(string, BeadHistory) fmap"

record BeadReference =
  BeadID :: string
  Title :: string
  Status :: string
  CommitSHAs :: "string list"
  LastTouch :: int
  TotalChanges :: "64 word"

record FileIndexStats =
  TotalFiles :: int
  TotalBeadLinks :: int
  FilesWithMultipleBeads :: int

record FileBeadIndex =
  FileToBeads :: "(string, BeadReference list) fmap"
  Stats :: FileIndexStats

record FileHotspot =
  FilePath :: string
  TotalBeads :: int
  OpenBeads :: int
  ClosedBeads :: int

record FileBeadLookupResult =
  FilePath :: string
  OpenBeads :: "BeadReference list"
  ClosedBeads :: "BeadReference list"
  TotalBeads :: int

record FileLookup =
  index :: FileBeadIndex
  beads :: "(string, BeadHistory) fmap"

text \<open>The local struct \<^verbatim>\<open>fileBeadCount\<close> of \<^verbatim>\<open>GetHotspots\<close>.\<close>

record fileBeadCount =
  path :: string
  count :: int
  refs :: "BeadReference list"

subsection \<open>What the Go runtime and library leave open\<close>

text \<open>
  \<open>range_order m ks\<close>: the list \<open>ks\<close> is an order in which \<^verbatim>\<open>range\<close> may visit
  the map \<open>m\<close>: every key once.
\<close>

definition range_order :: "('k, 'v) fmap \<Rightarrow> 'k list \<Rightarrow> bool" where
  "range_order m ks \<longleftrightarrow> distinct ks \<and> set ks = fmdom' m"

text \<open>
  \<open>sort_Slice_ok lt srt\<close>: the contract of \<^verbatim>\<open>sort.Slice(x, less)\<close>. The sorted
  slice is a rearrangement of the given one in which no later element is \<open>lt\<close> than an
  earlier one. The order of elements that \<open>lt\<close> does not separate is not fixed
  (\<^verbatim>\<open>sort.Slice\<close> is not stable).
\<close>

definition sort_Slice_ok :: "('a \<Rightarrow> 'a \<Rightarrow> bool) \<Rightarrow> ('a list \<Rightarrow> 'a list) \<Rightarrow> bool" where
  "sort_Slice_ok lt srt \<longleftrightarrow>
     (\<forall>xs. mset (srt xs) = mset xs \<and> sorted_wrt (\<lambda>a b. \<not> lt b a) (srt xs))"

text \<open>
  Insertion sort, one function that meets the contract (it is what \<^verbatim>\<open>sort.Slice\<close>
  runs on a short slice).
\<close>

fun insert_by :: "('a \<Rightarrow> 'a \<Rightarrow> bool) \<Rightarrow> 'a \<Rightarrow> 'a list \<Rightarrow> 'a list" where
  "insert_by lt x [] = [x]"
| "insert_by lt x (y # ys) = (if lt x y then x # y # ys else y # insert_by lt x ys)"

definition insertion_sort :: "('a \<Rightarrow> 'a \<Rightarrow> bool) \<Rightarrow> 'a list \<Rightarrow> 'a list" where
  "insertion_sort lt xs = foldl (\<lambda>acc x. insert_by lt x acc) [] xs"

text \<open>
  One run of \<^verbatim>\<open>BuildFileIndex\<close>: the orders of its three \<^verbatim>\<open>range\<close> loops (over
  \<^verbatim>\<open>report.Histories\<close>, over \<^verbatim>\<open>fileBeadMap\<close>, and over the \<^verbatim>\<open>beadMap\<close> of each
  file) and the behaviour of \<^verbatim>\<open>sort.Slice\<close>.
\<close>

record run =
  hist_order :: "string list"
  file_order :: "string list"
  bead_order :: "string \<Rightarrow> string list"
  sort_Slice :: "(BeadReference \<Rightarrow> BeadReference \<Rightarrow> bool) \<Rightarrow> BeadReference list \<Rightarrow> BeadReference list"

subsection \<open>normalizePath and containsBeadRef\<close>

definition normalizePath :: "string \<Rightarrow> string" where
  "normalizePath p =
     (let p1 = ReplaceAll p backslash (CHR ''/'');
          p2 = TrimPrefix p1 ''./'';
          p3 = TrimSuffix p2 ''/''
      in p3)"

fun containsBeadRef :: "BeadReference list \<Rightarrow> string \<Rightarrow> bool" where
  "containsBeadRef [] beadID = False"
| "containsBeadRef (ref # rs) beadID =
     (if BeadID ref = beadID then True else containsBeadRef rs beadID)"

subsection \<open>BuildFileIndex\<close>

type_synonym fileBeadMap = "(string, (string, BeadReference) fmap) fmap"

text \<open>
  The body of the innermost loop (source lines 66 to 103): one changed file of one commit
  of the bead \<open>beadID\<close>. Each \<^verbatim>\<open>*BeadReference\<close> is allocated for one pair of path and
  bead and reached only through \<^verbatim>\<open>fileBeadMap\<close>, so the map holds the references
  themselves. \<open>upsert\<close> is the part that works on the reference (lines 73 to 103):
  \<open>found\<close> is what \<^verbatim>\<open>fileBeadMap[normalizedPath][beadID]\<close> held.
\<close>

definition upsert ::
  "string \<Rightarrow> BeadHistory \<Rightarrow> CorrelatedCommit \<Rightarrow> FileChange \<Rightarrow>
   BeadReference option \<Rightarrow> BeadReference" where
  "upsert beadID history commit file found =
     (let ref0 = (case found of
                    None \<Rightarrow> \<lparr>BeadID = beadID,
                             Title = BeadHistory.Title history,
                             Status = BeadHistory.Status history,
                             CommitSHAs = [],
                             LastTouch = Timestamp commit,
                             TotalChanges = 0\<rparr>
                  | Some r \<Rightarrow> r);
          ref1 = (if ShortSHA commit \<in> set (CommitSHAs ref0) then ref0
                  else ref0\<lparr>CommitSHAs := CommitSHAs ref0 @ [ShortSHA commit]\<rparr>);
          ref2 = (if LastTouch ref1 < Timestamp commit
                  then ref1\<lparr>LastTouch := Timestamp commit\<rparr> else ref1);
          ref3 = ref2\<lparr>TotalChanges := TotalChanges ref2 + (Insertions file + Deletions file)\<rparr>
      in ref3)"

definition touch ::
  "string \<Rightarrow> BeadHistory \<Rightarrow> CorrelatedCommit \<Rightarrow> FileChange \<Rightarrow> fileBeadMap \<Rightarrow> fileBeadMap" where
  "touch beadID history commit file fbm =
     (let normalizedPath = normalizePath (Path file);
          beadMap = (case fmlookup fbm normalizedPath of None \<Rightarrow> fmempty | Some bm \<Rightarrow> bm);
          ref = upsert beadID history commit file (fmlookup beadMap beadID)
      in fmupd normalizedPath (fmupd beadID ref beadMap) fbm)"

definition touch_commit ::
  "string \<Rightarrow> BeadHistory \<Rightarrow> CorrelatedCommit \<Rightarrow> fileBeadMap \<Rightarrow> fileBeadMap" where
  "touch_commit beadID history commit fbm = fold (touch beadID history commit) (Files commit) fbm"

definition touch_history :: "string \<Rightarrow> BeadHistory \<Rightarrow> fileBeadMap \<Rightarrow> fileBeadMap" where
  "touch_history beadID history fbm = fold (touch_commit beadID history) (Commits history) fbm"

text \<open>The loop over \<^verbatim>\<open>report.Histories\<close> (source lines 63 to 106), visited in order \<open>ks\<close>.\<close>

definition touch_bead :: "HistoryReport \<Rightarrow> string \<Rightarrow> fileBeadMap \<Rightarrow> fileBeadMap" where
  "touch_bead report beadID fbm =
     (case fmlookup (Histories report) beadID of
        None \<Rightarrow> fbm
      | Some history \<Rightarrow> touch_history beadID history fbm)"

definition accumulate :: "string list \<Rightarrow> HistoryReport \<Rightarrow> fileBeadMap" where
  "accumulate ks report = fold (touch_bead report) ks fmempty"

text \<open>\<^verbatim>\<open>refs[i].LastTouch.After(refs[j].LastTouch)\<close>\<close>

definition touched_after :: "BeadReference \<Rightarrow> BeadReference \<Rightarrow> bool" where
  "touched_after a b \<longleftrightarrow> LastTouch b < LastTouch a"

text \<open>
  The body of the conversion loop (source lines 116 to 132) for one file; the state is
  \<^verbatim>\<open>result.FileToBeads\<close>, \<^verbatim>\<open>totalLinks\<close> and \<^verbatim>\<open>multipleBeadsCount\<close>.
\<close>

definition convert ::
  "run \<Rightarrow> fileBeadMap \<Rightarrow> string \<Rightarrow>
   (string, BeadReference list) fmap \<times> int \<times> int \<Rightarrow>
   (string, BeadReference list) fmap \<times> int \<times> int" where
  "convert rn fbm filePath st =
     (case st of (res, totalLinks, multipleBeadsCount) \<Rightarrow>
        (case fmlookup fbm filePath of
           None \<Rightarrow> st
         | Some beadMap \<Rightarrow>
             (let rs0 = List.map_filter (fmlookup beadMap) (bead_order rn filePath);
                  rs = sort_Slice rn touched_after rs0
              in (fmupd filePath rs res,
                  totalLinks + int (length rs),
                  (if 1 < length rs then multipleBeadsCount + 1 else multipleBeadsCount)))))"

definition BuildFileIndex :: "run \<Rightarrow> HistoryReport option \<Rightarrow> FileBeadIndex" where
  "BuildFileIndex rn report =
     (case report of
        None \<Rightarrow>
          \<lparr>FileToBeads = fmempty,
           Stats = \<lparr>TotalFiles = 0, TotalBeadLinks = 0, FilesWithMultipleBeads = 0\<rparr>\<rparr>
      | Some rep \<Rightarrow>
          (let fbm = accumulate (hist_order rn) rep
           in (case fold (convert rn fbm) (file_order rn) (fmempty, 0, 0) of
                 (res, totalLinks, multipleBeadsCount) \<Rightarrow>
                   \<lparr>FileToBeads = res,
                    Stats = \<lparr>TotalFiles = int (fcard (fmdom res)),
                             TotalBeadLinks = totalLinks,
                             FilesWithMultipleBeads = multipleBeadsCount\<rparr>\<rparr>)))"

text \<open>
  \<open>valid_run report rn\<close>: the run \<open>rn\<close> is one the Go runtime can take on \<open>report\<close>.
\<close>

definition valid_run :: "HistoryReport \<Rightarrow> run \<Rightarrow> bool" where
  "valid_run report rn \<longleftrightarrow>
     range_order (Histories report) (hist_order rn) \<and>
     range_order (accumulate (hist_order rn) report) (file_order rn) \<and>
     (\<forall>p \<in> set (file_order rn).
        case fmlookup (accumulate (hist_order rn) report) p of
          None \<Rightarrow> False
        | Some beadMap \<Rightarrow> range_order beadMap (bead_order rn p)) \<and>
     sort_Slice_ok touched_after (sort_Slice rn touched_after)"

subsection \<open>NewFileLookup\<close>

text \<open>
  \<^verbatim>\<open>BuildFileIndex(report)\<close> is evaluated first and accepts nil; \<^verbatim>\<open>report.Histories\<close>
  then reads through the pointer.
\<close>

definition NewFileLookup :: "run \<Rightarrow> HistoryReport option \<Rightarrow> error + FileLookup" where
  "NewFileLookup rn report =
     (let idx = BuildFileIndex rn report
      in (case report of
            None \<Rightarrow> Inl NilPointerDereference
          | Some rep \<Rightarrow> Inr \<lparr>index = idx, beads = Histories rep\<rparr>))"

subsection \<open>The lookups\<close>

text \<open>The refresh of a reference from the live map (source lines 166 to 169, 186 to 189, 229 to 232).\<close>

definition refresh :: "(string, BeadHistory) fmap \<Rightarrow> BeadReference \<Rightarrow> BeadReference" where
  "refresh bs ref =
     (case fmlookup bs (BeadID ref) of
        None \<Rightarrow> ref
      | Some history \<Rightarrow> ref\<lparr>Status := BeadHistory.Status history, Title := BeadHistory.Title history\<rparr>)"

text \<open>The body of the exact-match loop (source lines 164 to 176).\<close>

definition bucket ::
  "(string, BeadHistory) fmap \<Rightarrow> BeadReference \<Rightarrow> FileBeadLookupResult \<Rightarrow> FileBeadLookupResult" where
  "bucket bs ref0 result =
     (let ref = refresh bs ref0
      in if Status ref = ''closed''
         then result\<lparr>ClosedBeads := ClosedBeads result @ [ref]\<rparr>
         else result\<lparr>OpenBeads := OpenBeads result @ [ref]\<rparr>)"

text \<open>The body of the directory loop (source lines 184 to 201).\<close>

definition bucket_dedup ::
  "(string, BeadHistory) fmap \<Rightarrow> BeadReference \<Rightarrow> FileBeadLookupResult \<Rightarrow> FileBeadLookupResult" where
  "bucket_dedup bs ref0 result =
     (let ref = refresh bs ref0
      in if Status ref = ''closed''
         then (if \<not> containsBeadRef (ClosedBeads result) (BeadID ref)
               then result\<lparr>ClosedBeads := ClosedBeads result @ [ref]\<rparr> else result)
         else (if \<not> containsBeadRef (OpenBeads result) (BeadID ref)
               then result\<lparr>OpenBeads := OpenBeads result @ [ref]\<rparr> else result))"

definition in_directory :: "string \<Rightarrow> string \<Rightarrow> bool" where
  "in_directory normalizedPath filePath \<longleftrightarrow>
     HasPrefix filePath (normalizedPath @ ''/'') \<or> HasPrefix filePath (normalizedPath @ [backslash])"

text \<open>\<open>ks\<close> is the order in which the directory loop visits \<^verbatim>\<open>fl.index.FileToBeads\<close>.\<close>

definition LookupByFile :: "string list \<Rightarrow> FileLookup \<Rightarrow> string \<Rightarrow> FileBeadLookupResult" where
  "LookupByFile ks fl pth =
     (let normalizedPath = normalizePath pth;
          result = \<lparr>FilePath = pth, OpenBeads = [], ClosedBeads = [], TotalBeads = 0\<rparr>
      in (case fmlookup (FileToBeads (index fl)) normalizedPath of
            Some rs \<Rightarrow> (fold (bucket (beads fl)) rs result)\<lparr>TotalBeads := int (length rs)\<rparr>
          | None \<Rightarrow>
              (let result' =
                     fold (\<lambda>filePath res.
                             case fmlookup (FileToBeads (index fl)) filePath of
                               None \<Rightarrow> res
                             | Some rs \<Rightarrow>
                                 if in_directory normalizedPath filePath
                                 then fold (bucket_dedup (beads fl)) rs res else res)
                          ks result
               in result'\<lparr>TotalBeads :=
                    int (length (OpenBeads result')) + int (length (ClosedBeads result'))\<rparr>)))"

text \<open>
  The body of the inner loop of \<^verbatim>\<open>LookupByFileGlob\<close> (source lines 227 to 245); the state
  is the result with the maps \<^verbatim>\<open>seenOpen\<close> and \<^verbatim>\<open>seenClosed\<close>. Reading a missing key
  of a \<^verbatim>\<open>map[string]bool\<close> gives false.
\<close>

definition seen :: "(string, bool) fmap \<Rightarrow> string \<Rightarrow> bool" where
  "seen m k = (case fmlookup m k of None \<Rightarrow> False | Some b \<Rightarrow> b)"

definition bucket_seen ::
  "(string, BeadHistory) fmap \<Rightarrow> BeadReference \<Rightarrow>
   FileBeadLookupResult \<times> (string, bool) fmap \<times> (string, bool) fmap \<Rightarrow>
   FileBeadLookupResult \<times> (string, bool) fmap \<times> (string, bool) fmap" where
  "bucket_seen bs ref0 st =
     (case st of (result, seenOpen, seenClosed) \<Rightarrow>
        (let ref = refresh bs ref0
         in if Status ref = ''closed''
            then (if \<not> seen seenClosed (BeadID ref)
                  then (result\<lparr>ClosedBeads := ClosedBeads result @ [ref]\<rparr>,
                        seenOpen, fmupd (BeadID ref) True seenClosed)
                  else st)
            else (if \<not> seen seenOpen (BeadID ref)
                  then (result\<lparr>OpenBeads := OpenBeads result @ [ref]\<rparr>,
                        fmupd (BeadID ref) True seenOpen, seenClosed)
                  else st)))"

text \<open>
  \<^verbatim>\<open>filepath.Match(pattern, name)\<close> belongs to the Go library and is an argument here:
  \<open>Match pattern name\<close> is the pair of \<^verbatim>\<open>matched\<close> and \<^verbatim>\<open>err\<close>.
\<close>

type_synonym matcher = "string \<Rightarrow> string \<Rightarrow> bool \<times> error option"

definition LookupByFileGlob ::
  "matcher \<Rightarrow> string list \<Rightarrow> FileLookup \<Rightarrow> string \<Rightarrow> FileBeadLookupResult" where
  "LookupByFileGlob Match ks fl pattern =
     (let result = \<lparr>FilePath = pattern, OpenBeads = [], ClosedBeads = [], TotalBeads = 0\<rparr>
      in (case fold (\<lambda>filePath st.
                       case fmlookup (FileToBeads (index fl)) filePath of
                         None \<Rightarrow> st
                       | Some rs \<Rightarrow>
                           (case Match pattern filePath of (matched, err) \<Rightarrow>
                              if err \<noteq> None \<or> \<not> matched then st
                              else fold (bucket_seen (beads fl)) rs st))
                    ks (result, fmempty, fmempty) of
            (result', seenOpen, seenClosed) \<Rightarrow>
              result'\<lparr>TotalBeads :=
                int (length (OpenBeads result')) + int (length (ClosedBeads result'))\<rparr>))"

text \<open>
  \<open>ks\<close> is the order in which \<^verbatim>\<open>GetHotspots\<close> visits \<^verbatim>\<open>fl.index.FileToBeads\<close> and
  \<open>srt\<close> the behaviour of \<^verbatim>\<open>sort.Slice\<close> on \<^verbatim>\<open>counts\<close>.
\<close>

definition more_beads :: "fileBeadCount \<Rightarrow> fileBeadCount \<Rightarrow> bool" where
  "more_beads a b \<longleftrightarrow> fileBeadCount.count b < fileBeadCount.count a"

definition hotspot :: "fileBeadCount \<Rightarrow> FileHotspot" where
  "hotspot c =
     (let openCount = int (length (filter (\<lambda>ref. Status ref \<noteq> ''closed'') (refs c)))
      in \<lparr>FileHotspot.FilePath = path c,
          FileHotspot.TotalBeads = fileBeadCount.count c,
          FileHotspot.OpenBeads = openCount,
          FileHotspot.ClosedBeads = fileBeadCount.count c - openCount\<rparr>)"

definition GetHotspots ::
  "string list \<Rightarrow> ((fileBeadCount \<Rightarrow> fileBeadCount \<Rightarrow> bool) \<Rightarrow> fileBeadCount list \<Rightarrow> fileBeadCount list) \<Rightarrow>
   FileLookup \<Rightarrow> int \<Rightarrow> FileHotspot list" where
  "GetHotspots ks srt fl limit =
     (let counts0 = List.map_filter
                      (\<lambda>p. case fmlookup (FileToBeads (index fl)) p of
                              None \<Rightarrow> None
                            | Some rs \<Rightarrow> Some \<lparr>path = p, count = int (length rs), refs = rs\<rparr>)
                      ks;
          counts = srt more_beads counts0;
          limit' = (if limit \<le> 0 \<or> int (length counts) < limit then int (length counts) else limit)
      in map hotspot (take (nat limit') counts))"

subsection \<open>Notions used in the statements and proofs\<close>

text \<open>The reference that a \<^verbatim>\<open>fileBeadMap\<close> holds for a path and a bead.\<close>

definition look :: "fileBeadMap \<Rightarrow> string \<Rightarrow> string \<Rightarrow> BeadReference option" where
  "look fbm p b = (case fmlookup fbm p of None \<Rightarrow> None | Some bm \<Rightarrow> fmlookup bm b)"

text \<open>No file of the map has an empty bead map.\<close>

definition inhabited :: "fileBeadMap \<Rightarrow> bool" where
  "inhabited fbm \<longleftrightarrow> (\<forall>p bm. fmlookup fbm p = Some bm \<longrightarrow> bm \<noteq> fmempty)"

text \<open>
  What the commits of one bead do to the reference of one path: the files of the history
  whose normalized path is \<open>p\<close>, in order.
\<close>

definition ref_commit ::
  "string \<Rightarrow> BeadHistory \<Rightarrow> string \<Rightarrow> CorrelatedCommit \<Rightarrow>
   BeadReference option \<Rightarrow> BeadReference option" where
  "ref_commit b h p c acc =
     fold (\<lambda>f acc. if normalizePath (Path f) = p then Some (upsert b h c f acc) else acc)
          (Files c) acc"

definition ref_history ::
  "string \<Rightarrow> BeadHistory \<Rightarrow> string \<Rightarrow> BeadReference option \<Rightarrow> BeadReference option" where
  "ref_history b h p acc = fold (ref_commit b h p) (Commits h) acc"

text \<open>The sorted reference list that the conversion loop stores for a file.\<close>

definition converted :: "run \<Rightarrow> fileBeadMap \<Rightarrow> string \<Rightarrow> BeadReference list option" where
  "converted rn fbm p =
     (case fmlookup fbm p of
        None \<Rightarrow> None
      | Some beadMap \<Rightarrow>
          Some (sort_Slice rn touched_after (List.map_filter (fmlookup beadMap) (bead_order rn p))))"

text \<open>The summands of the two counters of the conversion loop.\<close>

definition links :: "run \<Rightarrow> fileBeadMap \<Rightarrow> string \<Rightarrow> int" where
  "links rn fbm p = (case converted rn fbm p of None \<Rightarrow> 0 | Some rs \<Rightarrow> int (length rs))"

definition multi :: "run \<Rightarrow> fileBeadMap \<Rightarrow> string \<Rightarrow> bool" where
  "multi rn fbm p = (case converted rn fbm p of None \<Rightarrow> False | Some rs \<Rightarrow> 1 < length rs)"

text \<open>A reference, if there is one, is of bead \<open>b\<close> and carries the title and status of \<open>h\<close>.\<close>

definition snapshot_of :: "string \<Rightarrow> BeadHistory \<Rightarrow> BeadReference option \<Rightarrow> bool" where
  "snapshot_of b h acc \<longleftrightarrow>
     (\<forall>r. acc = Some r \<longrightarrow>
        BeadID r = b \<and> BeadReference.Status r = BeadHistory.Status h \<and>
        BeadReference.Title r = BeadHistory.Title h)"

text \<open>
  The loop shared by the directory lookup and the glob lookup: the files of \<open>ks\<close>
  that \<open>M\<close> selects add their references to the result, unless the bucket holds the
  bead already.
\<close>

definition collect ::
  "(string, BeadHistory) fmap \<Rightarrow> (string, BeadReference list) fmap \<Rightarrow> (string \<Rightarrow> bool) \<Rightarrow>
   string list \<Rightarrow> FileBeadLookupResult \<Rightarrow> FileBeadLookupResult" where
  "collect bs ftb M ks result =
     fold (\<lambda>filePath res.
             case fmlookup ftb filePath of
               None \<Rightarrow> res
             | Some rs \<Rightarrow> if M filePath then fold (bucket_dedup bs) rs res else res)
          ks result"

text \<open>The references stored under the files of \<open>P\<close> that \<open>M\<close> selects.\<close>

definition stored :: "(string, BeadReference list) fmap \<Rightarrow> (string \<Rightarrow> bool) \<Rightarrow> string set \<Rightarrow> BeadReference set" where
  "stored ftb M P = {r. \<exists>p rs. p \<in> P \<and> M p \<and> fmlookup ftb p = Some rs \<and> r \<in> set rs}"

text \<open>The references of a result, open ones first.\<close>

definition returned :: "FileBeadLookupResult \<Rightarrow> BeadReference list" where
  "returned res = OpenBeads res @ ClosedBeads res"

text \<open>
  The state of the result after the references \<open>S\<close> have gone through
  \<open>bucket_dedup\<close>: no bucket holds a bead twice, every entry of a bucket is the refreshed
  form of a reference of \<open>S\<close> and has the status of its bucket, and every reference of
  \<open>S\<close> has its bead in the bucket of its refreshed status.
\<close>

definition dedup_inv ::
  "(string, BeadHistory) fmap \<Rightarrow> BeadReference set \<Rightarrow> FileBeadLookupResult \<Rightarrow> bool" where
  "dedup_inv bs S res \<longleftrightarrow>
     distinct (map BeadID (OpenBeads res)) \<and>
     distinct (map BeadID (ClosedBeads res)) \<and>
     (\<forall>r \<in> set (OpenBeads res). Status r \<noteq> ''closed'' \<and> (\<exists>r0 \<in> S. r = refresh bs r0)) \<and>
     (\<forall>r \<in> set (ClosedBeads res). Status r = ''closed'' \<and> (\<exists>r0 \<in> S. r = refresh bs r0)) \<and>
     (\<forall>r0 \<in> S. Status (refresh bs r0) = ''closed'' \<longrightarrow> BeadID r0 \<in> BeadID ` set (ClosedBeads res)) \<and>
     (\<forall>r0 \<in> S. Status (refresh bs r0) \<noteq> ''closed'' \<longrightarrow> BeadID r0 \<in> BeadID ` set (OpenBeads res))"

text \<open>The maps \<^verbatim>\<open>seenOpen\<close> and \<^verbatim>\<open>seenClosed\<close> record the beads of the two buckets.\<close>

definition seen_ok ::
  "FileBeadLookupResult \<times> (string, bool) fmap \<times> (string, bool) fmap \<Rightarrow> bool" where
  "seen_ok st \<longleftrightarrow>
     (case st of (res, seenOpen, seenClosed) \<Rightarrow>
        (\<forall>b. seen seenOpen b \<longleftrightarrow> b \<in> BeadID ` set (OpenBeads res)) \<and>
        (\<forall>b. seen seenClosed b \<longleftrightarrow> b \<in> BeadID ` set (ClosedBeads res)))"

text \<open>The files that the glob loop does not skip: no error, and a match.\<close>

definition glob_selects :: "matcher \<Rightarrow> string \<Rightarrow> string \<Rightarrow> bool" where
  "glob_selects Match pattern filePath \<longleftrightarrow>
     (case Match pattern filePath of (matched, err) \<Rightarrow> err = None \<and> matched)"

subsection \<open>Inputs for the examples\<close>

text \<open>
  Two beads. Both touched \<^verbatim>\<open>pkg/a.go\<close> last at instant 100; \<^verbatim>\<open>pkg/c.go\<close> was
  touched by \<^verbatim>\<open>bv-2\<close> at 200 and by \<^verbatim>\<open>bv-1\<close> at 150; only \<^verbatim>\<open>bv-1\<close> touched
  \<^verbatim>\<open>pkg/b.go\<close>.
\<close>

definition two_beads :: HistoryReport where
  "two_beads =
     \<lparr>Histories =
        fmupd ''bv-1''
          \<lparr>BeadHistory.Title = ''Add index'', Status = ''open'',
           Commits = [\<lparr>ShortSHA = ''abc1234'', Timestamp = 100,
                       Files = [\<lparr>Path = ''pkg/a.go'', Insertions = 3, Deletions = 1\<rparr>,
                                \<lparr>Path = ''pkg/b.go'', Insertions = 7, Deletions = 0\<rparr>]\<rparr>,
                      \<lparr>ShortSHA = ''0a1b2c3'', Timestamp = 150,
                       Files = [\<lparr>Path = ''pkg/c.go'', Insertions = 1, Deletions = 1\<rparr>]\<rparr>]\<rparr>
       (fmupd ''bv-2''
          \<lparr>BeadHistory.Title = ''Fix lookup'', Status = ''closed'',
           Commits = [\<lparr>ShortSHA = ''def5678'', Timestamp = 100,
                       Files = [\<lparr>Path = ''./pkg/a.go'', Insertions = 2, Deletions = 2\<rparr>]\<rparr>,
                      \<lparr>ShortSHA = ''9f8e7d6'', Timestamp = 200,
                       Files = [\<lparr>Path = [CHR ''p'', CHR ''k'', CHR ''g'', backslash, CHR ''c'', CHR ''.'', CHR ''g'', CHR ''o''],
                                 Insertions = 5, Deletions = 0\<rparr>]\<rparr>]\<rparr>
        fmempty)\<rparr>"

definition run_12 :: run where
  "run_12 =
     \<lparr>hist_order = [''bv-1'', ''bv-2''],
      file_order = [''pkg/a.go'', ''pkg/b.go'', ''pkg/c.go''],
      bead_order = (\<lambda>p. if p = ''pkg/b.go'' then [''bv-1''] else [''bv-1'', ''bv-2'']),
      sort_Slice = insertion_sort\<rparr>"

definition run_21 :: run where
  "run_21 =
     \<lparr>hist_order = [''bv-2'', ''bv-1''],
      file_order = [''pkg/c.go'', ''pkg/b.go'', ''pkg/a.go''],
      bead_order = (\<lambda>p. if p = ''pkg/b.go'' then [''bv-1''] else [''bv-2'', ''bv-1'']),
      sort_Slice = insertion_sort\<rparr>"

text \<open>The index of \<open>two_beads\<close>, with three states of the live map.\<close>

definition lookup_fresh :: FileLookup where
  "lookup_fresh = \<lparr>index = BuildFileIndex run_12 (Some two_beads), beads = Histories two_beads\<rparr>"

text \<open>After the build, \<^verbatim>\<open>bv-1\<close> was closed and retitled.\<close>

definition lookup_closed :: FileLookup where
  "lookup_closed =
     \<lparr>index = BuildFileIndex run_12 (Some two_beads),
      beads = fmupd ''bv-1''
                \<lparr>BeadHistory.Title = ''Add file index'', Status = ''closed'', Commits = []\<rparr>
                (Histories two_beads)\<rparr>"

text \<open>After the build, \<^verbatim>\<open>bv-2\<close> was deleted from the live map.\<close>

definition lookup_deleted :: FileLookup where
  "lookup_deleted =
     \<lparr>index = BuildFileIndex run_12 (Some two_beads),
      beads = fmupd ''bv-1''
                \<lparr>BeadHistory.Title = ''Add index'', Status = ''in_progress'', Commits = []\<rparr>
                fmempty\<rparr>"

definition all_files :: "string list" where
  "all_files = [''pkg/c.go'', ''pkg/a.go'', ''pkg/b.go'']"

text \<open>
  A matcher for the examples: the pattern \<^verbatim>\<open>[\<close> is malformed, the pattern \<^verbatim>\<open>*\<close> matches
  every name without a slash, and the pattern \<^verbatim>\<open>pkg/*\<close> the names in \<^verbatim>\<open>pkg\<close>; any
  other pattern matches itself only.
\<close>

definition example_Match :: matcher where
  "example_Match pattern name =
     (if pattern = ''['' then (False, Some ErrBadPattern)
      else if pattern = ''*'' then (CHR ''/'' \<notin> set name, None)
      else if pattern = ''pkg/*'' then (prefix ''pkg/'' name \<and> CHR ''/'' \<notin> set (drop 4 name), None)
      else (pattern = name, None))"

section \<open>Path normalization\<close>

lemma ReplaceAll_id: "old \<notin> set s \<Longrightarrow> ReplaceAll s old new = s"
  by (induction s) (auto simp: ReplaceAll_def)

lemma ReplaceAll_free: "old \<noteq> new \<Longrightarrow> old \<notin> set (ReplaceAll s old new)"
  by (auto simp: ReplaceAll_def)

lemma set_TrimPrefix: "set (TrimPrefix s pre) \<subseteq> set s"
  by (auto simp: TrimPrefix_def dest: in_set_dropD)

lemma set_TrimSuffix: "set (TrimSuffix s suf) \<subseteq> set s"
  by (auto simp: TrimSuffix_def dest: in_set_takeD)

lemma length_TrimSuffix: "length (TrimSuffix s suf) \<le> length s"
  by (simp add: TrimSuffix_def)

lemma backslash_notin_normalizePath: "backslash \<notin> set (normalizePath p)"
proof -
  have "backslash \<notin> set (ReplaceAll p backslash (CHR ''/''))"
    by (rule ReplaceAll_free) (simp add: backslash_def)
  then show ?thesis
    using set_TrimPrefix set_TrimSuffix unfolding normalizePath_def Let_def by blast
qed

text \<open>A second pass finds no back-slash: it only trims.\<close>

lemma normalizePath_again:
  "normalizePath (normalizePath p) = TrimSuffix (TrimPrefix (normalizePath p) ''./'') ''/''"
proof -
  have "ReplaceAll (normalizePath p) backslash (CHR ''/'') = normalizePath p"
    by (rule ReplaceAll_id) (rule backslash_notin_normalizePath)
  then show ?thesis
    by (simp add: normalizePath_def[of "normalizePath p"])
qed

lemma normalizePath_fixed_iff:
  "normalizePath (normalizePath p) = normalizePath p \<longleftrightarrow>
   \<not> prefix ''./'' (normalizePath p) \<and> \<not> suffix ''/'' (normalizePath p)"
proof -
  define r where "r = normalizePath p"
  have again: "normalizePath r = TrimSuffix (TrimPrefix r ''./'') ''/''"
    unfolding r_def by (rule normalizePath_again)
  show ?thesis
  proof (cases "prefix ''./'' r")
    case True
    then have "2 \<le> length r" by (auto simp: prefix_def)
    then have "length (TrimPrefix r ''./'') < length r"
      using True by (simp add: TrimPrefix_def)
    then have "length (normalizePath r) < length r"
      using length_TrimSuffix[of "TrimPrefix r ''./''" "''/''"] by (simp add: again)
    then show ?thesis using True unfolding r_def[symmetric] by auto
  next
    case False
    then have t: "TrimPrefix r ''./'' = r" by (simp add: TrimPrefix_def)
    show ?thesis
    proof (cases "suffix ''/'' r")
      case True
      then have "1 \<le> length r" by (auto simp: suffix_def)
      then have "length (normalizePath r) < length r"
        using True by (simp add: again t TrimSuffix_def)
      then show ?thesis using True unfolding r_def[symmetric] by auto
    next
      case nosuf: False
      then show ?thesis
        using False unfolding r_def[symmetric] by (simp add: again t TrimSuffix_def)
    qed
  qed
qed

lemma TrimPrefix_twice:
  assumes "\<not> prefix (pre @ pre) s"
  shows "\<not> prefix pre (TrimPrefix s pre) \<or> pre = []"
proof (cases "prefix pre s")
  case True
  then obtain t where s: "s = pre @ t" by (auto simp: prefix_def)
  with assms have "\<not> prefix pre t" by simp
  then show ?thesis using True s by (simp add: TrimPrefix_def)
next
  case False
  then show ?thesis by (simp add: TrimPrefix_def)
qed

lemma normalizePath_clean:
  assumes "\<not> prefix ''././'' (ReplaceAll p backslash (CHR ''/''))"
      and "\<not> suffix ''//'' (ReplaceAll p backslash (CHR ''/''))"
  shows "\<not> prefix ''./'' (normalizePath p) \<and> \<not> suffix ''/'' (normalizePath p)"
proof -
  define q where "q = ReplaceAll p backslash (CHR ''/'')"
  define t where "t = TrimPrefix q ''./''"
  have r: "normalizePath p = TrimSuffix t ''/''"
    by (simp add: normalizePath_def q_def t_def)
  have "\<not> prefix (''./'' @ ''./'') q" using assms(1) by (simp add: q_def)
  then have np: "\<not> prefix ''./'' t"
    using TrimPrefix_twice[of "''./''" q] unfolding t_def by simp
  have "suffix t q" by (simp add: t_def TrimPrefix_def suffix_drop)
  then have ns: "\<not> suffix ''//'' t"
    using assms(2) unfolding q_def[symmetric] by (meson suffix_order.trans)
  have "prefix (TrimSuffix t ''/'') t" by (simp add: TrimSuffix_def take_is_prefix)
  then have 1: "\<not> prefix ''./'' (TrimSuffix t ''/'')"
    using np by (meson prefix_order.trans)
  have 2: "\<not> suffix ''/'' (TrimSuffix t ''/'')"
  proof (cases "suffix ''/'' t")
    case True
    then obtain u where u: "t = u @ ''/''" by (auto simp: suffix_def)
    then have "TrimSuffix t ''/'' = u" using True by (simp add: TrimSuffix_def)
    moreover have "\<not> suffix ''/'' u"
    proof
      assume "suffix ''/'' u"
      then obtain v where "u = v @ ''/''" by (auto simp: suffix_def)
      then have "t = v @ ''//''" using u by simp
      then show False using ns by (auto simp: suffix_def)
    qed
    ultimately show ?thesis by simp
  next
    case False
    then show ?thesis by (simp add: TrimSuffix_def)
  qed
  show ?thesis using 1 2 by (simp add: r)
qed

text \<open>
  Claim C2, as stated: normalizing twice gives the same as normalizing once, for every
  path. \<^verbatim>\<open>TrimPrefix\<close> and \<^verbatim>\<open>TrimSuffix\<close> remove one occurrence only: the path
  \<^verbatim>\<open>././a\<close> normalizes to \<^verbatim>\<open>./a\<close>, and that to \<^verbatim>\<open>a\<close>.
\<close>

theorem normalizePath_not_idempotent:
  "normalizePath (normalizePath ''././a'') \<noteq> normalizePath ''././a''"
  by code_simp

text \<open>
  Claim C2, amended: a second normalization changes nothing exactly when the normalized
  path neither begins with \<^verbatim>\<open>./\<close> nor ends with a slash; this is so for every path that,
  once its back-slashes are slashes, does not begin with \<^verbatim>\<open>././\<close> and does not end with
  two slashes. The two examples of the claim hold: \<^verbatim>\<open>./a/b/\<close> and \<^verbatim>\<open>a\b\<close> both
  normalize to \<^verbatim>\<open>a/b\<close>.
\<close>

theorem normalizePath_idempotent_amended:
  "(normalizePath (normalizePath p) = normalizePath p \<longleftrightarrow>
      \<not> prefix ''./'' (normalizePath p) \<and> \<not> suffix ''/'' (normalizePath p)) \<and>
   (\<not> prefix ''././'' (ReplaceAll p backslash (CHR ''/'')) \<and>
    \<not> suffix ''//'' (ReplaceAll p backslash (CHR ''/'')) \<longrightarrow>
      normalizePath (normalizePath p) = normalizePath p) \<and>
   normalizePath ''./a/b/'' = ''a/b'' \<and>
   normalizePath [CHR ''a'', backslash, CHR ''b''] = ''a/b''"
proof (intro conjI impI)
  show "normalizePath (normalizePath p) = normalizePath p \<longleftrightarrow>
      \<not> prefix ''./'' (normalizePath p) \<and> \<not> suffix ''/'' (normalizePath p)"
    by (rule normalizePath_fixed_iff)
next
  assume "\<not> prefix ''././'' (ReplaceAll p backslash (CHR ''/'')) \<and>
          \<not> suffix ''//'' (ReplaceAll p backslash (CHR ''/''))"
  then show "normalizePath (normalizePath p) = normalizePath p"
    using normalizePath_clean[of p] normalizePath_fixed_iff[of p] by blast
next
  show "normalizePath ''./a/b/'' = ''a/b''" by code_simp
next
  show "normalizePath [CHR ''a'', backslash, CHR ''b''] = ''a/b''" by code_simp
qed

theorem normalizePath_idempotent_amended_witness:
  "\<not> prefix ''././'' (ReplaceAll ''./src/main.go/'' backslash (CHR ''/'')) \<and>
   \<not> suffix ''//'' (ReplaceAll ''./src/main.go/'' backslash (CHR ''/'')) \<and>
   normalizePath (normalizePath ''./src/main.go/'') = normalizePath ''./src/main.go/''"
proof -
  have h: "\<not> prefix ''././'' (ReplaceAll ''./src/main.go/'' backslash (CHR ''/'')) \<and>
           \<not> suffix ''//'' (ReplaceAll ''./src/main.go/'' backslash (CHR ''/''))"
    by code_simp
  with normalizePath_idempotent_amended[of "''./src/main.go/''"]
  have "normalizePath (normalizePath ''./src/main.go/'') = normalizePath ''./src/main.go/''"
    by blast
  with h show ?thesis by blast
qed

section \<open>Insertion sort meets the contract of sort.Slice\<close>

lemma mset_insert_by: "mset (insert_by lt x ys) = add_mset x (mset ys)"
  by (induction ys) auto

lemma set_insert_by: "set (insert_by lt x ys) = insert x (set ys)"
  by (induction ys) auto

lemma sorted_insert_by:
  fixes key :: "'a \<Rightarrow> 'b::linorder"
  assumes "sorted_wrt (\<lambda>a b. key b \<le> key a) ys"
  shows "sorted_wrt (\<lambda>a b. key b \<le> key a) (insert_by (\<lambda>a b. key b < key a) x ys)"
  using assms by (induction ys) (auto simp: set_insert_by)

lemma foldl_insert_by:
  fixes key :: "'a \<Rightarrow> 'b::linorder"
  assumes "sorted_wrt (\<lambda>a b. key b \<le> key a) acc"
  shows "mset (foldl (\<lambda>acc x. insert_by (\<lambda>a b. key b < key a) x acc) acc xs) = mset acc + mset xs \<and>
         sorted_wrt (\<lambda>a b. key b \<le> key a) (foldl (\<lambda>acc x. insert_by (\<lambda>a b. key b < key a) x acc) acc xs)"
  using assms
proof (induction xs arbitrary: acc)
  case Nil
  then show ?case by simp
next
  case (Cons x xs)
  from Cons.IH[OF sorted_insert_by[OF Cons.prems, of x]]
  show ?case by (simp add: mset_insert_by)
qed

lemma insertion_sort_ok:
  fixes key :: "'a \<Rightarrow> 'b::linorder"
  shows "sort_Slice_ok (\<lambda>a b. key b < key a) (insertion_sort (\<lambda>a b. key b < key a))"
  unfolding sort_Slice_ok_def insertion_sort_def
  using foldl_insert_by[of key "[]"] by (simp add: not_less)

lemma touched_after_key: "touched_after = (\<lambda>a b. LastTouch b < LastTouch a)"
  by (intro ext) (simp add: touched_after_def)

lemma more_beads_key: "more_beads = (\<lambda>a b. fileBeadCount.count b < fileBeadCount.count a)"
  by (intro ext) (simp add: more_beads_def)

lemma insertion_sort_touched_after: "sort_Slice_ok touched_after (insertion_sort touched_after)"
  unfolding touched_after_key by (rule insertion_sort_ok)

lemma valid_run_12: "valid_run two_beads run_12"
proof -
  have "sort_Slice_ok touched_after (sort_Slice run_12 touched_after)"
    using insertion_sort_touched_after by (simp add: run_12_def)
  moreover have "range_order (Histories two_beads) (hist_order run_12)" by code_simp
  moreover have "range_order (accumulate (hist_order run_12) two_beads) (file_order run_12)" by code_simp
  moreover have "(\<forall>p \<in> set (file_order run_12).
        case fmlookup (accumulate (hist_order run_12) two_beads) p of
          None \<Rightarrow> False
        | Some beadMap \<Rightarrow> range_order beadMap (bead_order run_12 p))" by code_simp
  ultimately show ?thesis unfolding valid_run_def by blast
qed

section \<open>The accumulation loop\<close>

lemma look_empty: "look fmempty p b = None"
  by (simp add: look_def)

lemma look_touch:
  "look (touch b h c f fbm) p b' =
     (if p = normalizePath (Path f) \<and> b' = b
      then Some (upsert b h c f (look fbm p b)) else look fbm p b')"
  by (auto simp: look_def touch_def Let_def split: option.splits)

lemma look_touch_commit_gen:
  "look (fold (touch b h c) fs fbm) p b' =
     (if b' = b
      then fold (\<lambda>f acc. if normalizePath (Path f) = p then Some (upsert b h c f acc) else acc) fs (look fbm p b)
      else look fbm p b')"
  by (induction fs arbitrary: fbm) (auto simp: look_touch)

lemma look_touch_commit:
  "look (touch_commit b h c fbm) p b' =
     (if b' = b then ref_commit b h p c (look fbm p b) else look fbm p b')"
  by (simp add: touch_commit_def ref_commit_def look_touch_commit_gen)

lemma look_touch_history_gen:
  "look (fold (touch_commit b h) cs fbm) p b' =
     (if b' = b then fold (ref_commit b h p) cs (look fbm p b) else look fbm p b')"
  by (induction cs arbitrary: fbm) (auto simp: look_touch_commit)

lemma look_touch_history:
  "look (touch_history b h fbm) p b' =
     (if b' = b then ref_history b h p (look fbm p b) else look fbm p b')"
  by (simp add: touch_history_def ref_history_def look_touch_history_gen)

lemma look_touch_bead:
  "look (touch_bead report b fbm) p b' =
     (if b' = b
      then (case fmlookup (Histories report) b of
              None \<Rightarrow> look fbm p b
            | Some h \<Rightarrow> ref_history b h p (look fbm p b))
      else look fbm p b')"
  by (simp add: touch_bead_def look_touch_history split: option.splits)

lemma look_fold_touch_bead:
  "distinct ks \<Longrightarrow>
   look (fold (touch_bead report) ks fbm) p b =
     (if b \<in> set ks
      then (case fmlookup (Histories report) b of
              None \<Rightarrow> look fbm p b
            | Some h \<Rightarrow> ref_history b h p (look fbm p b))
      else look fbm p b)"
proof (induction ks arbitrary: fbm)
  case Nil
  then show ?case by simp
next
  case (Cons k ks)
  then show ?case by (auto simp: look_touch_bead split: option.splits)
qed

lemma look_accumulate:
  assumes "range_order (Histories report) ks"
  shows "look (accumulate ks report) p b =
           (case fmlookup (Histories report) b of
              None \<Rightarrow> None
            | Some h \<Rightarrow> ref_history b h p None)"
proof -
  from assms have d: "distinct ks" and s: "set ks = fmdom' (Histories report)"
    by (simp_all add: range_order_def)
  show ?thesis
    unfolding accumulate_def look_fold_touch_bead[OF d] using s
    by (auto simp: look_empty fmlookup_dom'_iff split: option.splits)
qed

lemma fmupd_not_empty: "fmupd k v m \<noteq> fmempty"
  by (metis fmdom'_empty fmdom'_fmupd insert_not_empty)

lemma inhabited_touch: "inhabited fbm \<Longrightarrow> inhabited (touch b h c f fbm)"
  by (auto simp: inhabited_def touch_def Let_def fmupd_not_empty)

lemma fold_inv:
  assumes "\<And>x s. P s \<Longrightarrow> P (f x s)" and "P s"
  shows "P (fold f xs s)"
  using assms(2) by (induction xs arbitrary: s) (auto intro: assms(1))

lemma inhabited_touch_history: "inhabited fbm \<Longrightarrow> inhabited (touch_history b h fbm)"
  unfolding touch_history_def touch_commit_def
  by (intro fold_inv[where P = inhabited] inhabited_touch)

lemma inhabited_accumulate: "inhabited (accumulate ks report)"
  unfolding accumulate_def
proof (rule fold_inv[where P = inhabited])
  show "inhabited fmempty" by (simp add: inhabited_def)
next
  fix b fbm assume "inhabited fbm"
  then show "inhabited (touch_bead report b fbm)"
    by (simp add: touch_bead_def inhabited_touch_history split: option.splits)
qed

lemma inhabited_look_eq:
  assumes "inhabited m1" "inhabited m2" and eq: "\<And>p b. look m1 p b = look m2 p b"
  shows "m1 = m2"
proof (rule fmap_ext)
  fix p
  have one: "fmlookup m p = Some bm \<Longrightarrow> inhabited m \<Longrightarrow> \<exists>b r. look m p b = Some r" for m bm
  proof -
    assume a: "fmlookup m p = Some bm" "inhabited m"
    then have "bm \<noteq> fmempty" by (simp add: inhabited_def)
    then obtain b r where "fmlookup bm b = Some r"
      by (metis fmap_ext fmempty_lookup option.exhaust)
    then show ?thesis using a by (auto simp: look_def)
  qed
  show "fmlookup m1 p = fmlookup m2 p"
  proof (cases "fmlookup m1 p")
    case None
    show ?thesis
    proof (cases "fmlookup m2 p")
      case n2: None
      then show ?thesis using None by simp
    next
      case (Some bm2)
      from one[OF this assms(2)] obtain b r where "look m2 p b = Some r" by blast
      then have "look m1 p b = Some r" by (simp add: eq)
      then show ?thesis using None by (simp add: look_def)
    qed
  next
    case (Some bm1)
    from one[OF this assms(1)] obtain b r where "look m1 p b = Some r" by blast
    then have "look m2 p b = Some r" by (simp add: eq)
    then obtain bm2 where bm2: "fmlookup m2 p = Some bm2"
      by (auto simp: look_def split: option.splits)
    have "bm1 = bm2"
    proof (rule fmap_ext)
      fix b
      show "fmlookup bm1 b = fmlookup bm2 b"
        using eq[of p b] Some bm2 by (simp add: look_def)
    qed
    then show ?thesis using Some bm2 by simp
  qed
qed

lemma accumulate_order_irrelevant:
  assumes "range_order (Histories report) ks1" "range_order (Histories report) ks2"
  shows "accumulate ks1 report = accumulate ks2 report"
  by (rule inhabited_look_eq)
     (simp_all add: inhabited_accumulate look_accumulate[OF assms(1)] look_accumulate[OF assms(2)])

section \<open>The conversion loop\<close>

lemma convert_step:
  "convert rn fbm p (res, tot, mc) =
     ((case converted rn fbm p of None \<Rightarrow> res | Some rs \<Rightarrow> fmupd p rs res),
      tot + links rn fbm p,
      mc + (if multi rn fbm p then 1 else 0))"
  by (simp add: convert_def converted_def links_def multi_def Let_def split: option.splits)

lemma fold_convert:
  "fold (convert rn fbm) ks (res, tot, mc) =
     (fold (\<lambda>p res. case converted rn fbm p of None \<Rightarrow> res | Some rs \<Rightarrow> fmupd p rs res) ks res,
      tot + sum_list (map (links rn fbm) ks),
      mc + int (length (filter (multi rn fbm) ks)))"
  by (induction ks arbitrary: res tot mc) (simp_all add: convert_step)

lemma lookup_fold_converted:
  "fmlookup (fold (\<lambda>p res. case converted rn fbm p of None \<Rightarrow> res | Some rs \<Rightarrow> fmupd p rs res) ks res) p =
     (if p \<in> set ks \<and> converted rn fbm p \<noteq> None then converted rn fbm p else fmlookup res p)"
  by (induction ks arbitrary: res) (auto split: option.splits)

lemma converted_None: "converted rn fbm p = None \<longleftrightarrow> fmlookup fbm p = None"
  by (simp add: converted_def split: option.splits)

lemma BuildFileIndex_Some:
  "BuildFileIndex rn (Some report) =
     (let fbm = accumulate (hist_order rn) report;
          res = fold (\<lambda>p res. case converted rn fbm p of None \<Rightarrow> res | Some rs \<Rightarrow> fmupd p rs res)
                     (file_order rn) fmempty
      in \<lparr>FileToBeads = res,
          Stats = \<lparr>TotalFiles = int (fcard (fmdom res)),
                   TotalBeadLinks = sum_list (map (links rn fbm) (file_order rn)),
                   FilesWithMultipleBeads = int (length (filter (multi rn fbm) (file_order rn)))\<rparr>\<rparr>)"
  by (simp add: BuildFileIndex_def fold_convert Let_def)

lemma FileToBeads_built:
  assumes "range_order (accumulate (hist_order rn) report) (file_order rn)"
  shows "fmlookup (FileToBeads (BuildFileIndex rn (Some report))) p =
           converted rn (accumulate (hist_order rn) report) p"
proof -
  from assms have s: "set (file_order rn) = fmdom' (accumulate (hist_order rn) report)"
    by (simp add: range_order_def)
  show ?thesis
  proof (cases "fmlookup (accumulate (hist_order rn) report) p")
    case None
    then have "converted rn (accumulate (hist_order rn) report) p = None"
      by (simp add: converted_def)
    then show ?thesis
      by (simp add: BuildFileIndex_Some Let_def lookup_fold_converted)
  next
    case (Some bm)
    then have "p \<in> set (file_order rn)" using s by (simp add: fmdom'I)
    then show ?thesis
      by (simp add: BuildFileIndex_Some Let_def lookup_fold_converted)
  qed
qed

lemma fmdom'_built:
  assumes "range_order (accumulate (hist_order rn) report) (file_order rn)"
  shows "fmdom' (FileToBeads (BuildFileIndex rn (Some report))) = set (file_order rn)"
proof -
  from assms have s: "set (file_order rn) = fmdom' (accumulate (hist_order rn) report)"
    by (simp add: range_order_def)
  show ?thesis
    unfolding s
    by (auto simp: fmlookup_dom'_iff FileToBeads_built[OF assms] converted_def
        split: option.splits)
qed

lemma Stats_built:
  assumes ro: "range_order (accumulate (hist_order rn) report) (file_order rn)"
  defines "idx \<equiv> BuildFileIndex rn (Some report)"
  shows "TotalFiles (Stats idx) = int (card (fmdom' (FileToBeads idx)))"
    and "TotalBeadLinks (Stats idx) =
           (\<Sum>p \<in> fmdom' (FileToBeads idx). int (length (the (fmlookup (FileToBeads idx) p))))"
    and "FilesWithMultipleBeads (Stats idx) =
           int (card {p \<in> fmdom' (FileToBeads idx). 1 < length (the (fmlookup (FileToBeads idx) p))})"
proof -
  let ?fbm = "accumulate (hist_order rn) report"
  from ro have d: "distinct (file_order rn)" by (simp add: range_order_def)
  have dom: "fmdom' (FileToBeads idx) = set (file_order rn)"
    unfolding idx_def by (rule fmdom'_built[OF ro])
  have lk: "fmlookup (FileToBeads idx) p = converted rn ?fbm p" for p
    unfolding idx_def by (rule FileToBeads_built[OF ro])
  show "TotalFiles (Stats idx) = int (card (fmdom' (FileToBeads idx)))"
    by (simp add: idx_def BuildFileIndex_Some Let_def fmdom'_alt_def fcard.rep_eq)
  have "TotalBeadLinks (Stats idx) = sum_list (map (links rn ?fbm) (file_order rn))"
    by (simp add: idx_def BuildFileIndex_Some Let_def)
  also have "\<dots> = (\<Sum>p \<in> set (file_order rn). links rn ?fbm p)"
    using d by (rule sum_list_distinct_conv_sum_set)
  also have "\<dots> = (\<Sum>p \<in> set (file_order rn). int (length (the (fmlookup (FileToBeads idx) p))))"
  proof (rule sum.cong[OF refl])
    fix p assume "p \<in> set (file_order rn)"
    then have "p \<in> fmdom' (FileToBeads idx)" using dom by simp
    then obtain rs where "fmlookup (FileToBeads idx) p = Some rs"
      by (auto simp: fmlookup_dom'_iff)
    then show "links rn ?fbm p = int (length (the (fmlookup (FileToBeads idx) p)))"
      by (simp add: links_def lk[symmetric])
  qed
  finally show "TotalBeadLinks (Stats idx) =
           (\<Sum>p \<in> fmdom' (FileToBeads idx). int (length (the (fmlookup (FileToBeads idx) p))))"
    by (simp add: dom)
  have "FilesWithMultipleBeads (Stats idx) = int (length (filter (multi rn ?fbm) (file_order rn)))"
    by (simp add: idx_def BuildFileIndex_Some Let_def)
  also have "\<dots> = int (card {p \<in> set (file_order rn). multi rn ?fbm p})"
    using d by (simp add: distinct_length_filter Int_def conj_commute)
  also have "{p \<in> set (file_order rn). multi rn ?fbm p} =
             {p \<in> fmdom' (FileToBeads idx). 1 < length (the (fmlookup (FileToBeads idx) p))}"
  proof -
    have "multi rn ?fbm p \<longleftrightarrow> 1 < length (the (fmlookup (FileToBeads idx) p))"
      if "p \<in> set (file_order rn)" for p
    proof -
      from that have "p \<in> fmdom' (FileToBeads idx)" using dom by simp
      then obtain rs where "fmlookup (FileToBeads idx) p = Some rs"
        by (auto simp: fmlookup_dom'_iff)
      then show ?thesis by (simp add: multi_def lk[symmetric])
    qed
    then show ?thesis unfolding dom by blast
  qed
  finally show "FilesWithMultipleBeads (Stats idx) =
           int (card {p \<in> fmdom' (FileToBeads idx). 1 < length (the (fmlookup (FileToBeads idx) p))})" .
qed

section \<open>The references of a built index\<close>

lemma upsert_fields:
  "BeadID (upsert b h c f None) = b"
  "BeadReference.Status (upsert b h c f None) = BeadHistory.Status h"
  "BeadReference.Title (upsert b h c f None) = BeadHistory.Title h"
  "BeadID (upsert b h c f (Some r)) = BeadID r"
  "BeadReference.Status (upsert b h c f (Some r)) = BeadReference.Status r"
  "BeadReference.Title (upsert b h c f (Some r)) = BeadReference.Title r"
  by (simp_all add: upsert_def Let_def)

lemma snapshot_of_ref_history: "snapshot_of b h (ref_history b h p None)"
  unfolding ref_history_def ref_commit_def
proof (intro fold_inv[where P = "snapshot_of b h"])
  show "snapshot_of b h None" by (simp add: snapshot_of_def)
next
  fix c f acc assume "snapshot_of b h acc"
  then show "snapshot_of b h (if normalizePath (Path f) = p then Some (upsert b h c f acc) else acc)"
    by (cases acc) (auto simp: snapshot_of_def upsert_fields)
qed

lemma look_accumulate_snapshot:
  assumes "range_order (Histories report) ks" and "look (accumulate ks report) p b = Some r"
  shows "BeadID r = b \<and>
         (\<exists>h. fmlookup (Histories report) b = Some h \<and>
              BeadReference.Status r = BeadHistory.Status h \<and>
              BeadReference.Title r = BeadHistory.Title h)"
proof -
  from assms obtain h where h: "fmlookup (Histories report) b = Some h"
    and r: "ref_history b h p None = Some r"
    by (auto simp: look_accumulate split: option.splits)
  from snapshot_of_ref_history[of b h p] r show ?thesis
    using h by (simp add: snapshot_of_def)
qed

lemma map_filter_range:
  assumes "range_order m ks"
  shows "List.map_filter (fmlookup m) ks = map (\<lambda>k. the (fmlookup m k)) ks"
proof -
  from assms have "\<forall>k \<in> set ks. fmlookup m k \<noteq> None"
    by (auto simp: range_order_def fmlookup_dom'_iff)
  then have "filter (\<lambda>k. fmlookup m k \<noteq> None) ks = ks" by simp
  then show ?thesis by (simp add: List.map_filter_def comp_def)
qed

lemma mset_map_filter_range:
  assumes "range_order m ks"
  shows "mset (List.map_filter (fmlookup m) ks) =
         image_mset (\<lambda>k. the (fmlookup m k)) (mset_set (fmdom' m))"
proof -
  from assms have "mset ks = mset_set (fmdom' m)"
    by (metis range_order_def mset_set_set)
  then show ?thesis by (simp add: map_filter_range[OF assms])
qed

lemma sort_Slice_ok_D:
  assumes "sort_Slice_ok lt srt"
  shows "mset (srt xs) = mset xs" and "sorted_wrt (\<lambda>a b. \<not> lt b a) (srt xs)"
    and "set (srt xs) = set xs" and "length (srt xs) = length xs"
proof -
  show m: "mset (srt xs) = mset xs" and "sorted_wrt (\<lambda>a b. \<not> lt b a) (srt xs)"
    using assms by (simp_all add: sort_Slice_ok_def)
  show "set (srt xs) = set xs" using m by (rule mset_eq_setD)
  show "length (srt xs) = length xs" using m by (rule mset_eq_length)
qed

lemma sorted_desc_unique:
  fixes key :: "'a \<Rightarrow> 'b::linorder"
  assumes m: "mset xs = mset ys"
      and sx: "sorted_wrt (\<lambda>a b. key b \<le> key a) xs"
      and sy: "sorted_wrt (\<lambda>a b. key b \<le> key a) ys"
      and d: "distinct (map key xs)"
  shows "xs = ys"
proof -
  have mk: "mset (map key xs) = mset (map key ys)" using m by (metis mset_map)
  then have dy: "distinct (map key ys)" using d by (metis mset_eq_imp_distinct_iff)
  have "sorted (rev (map key xs))" "sorted (rev (map key ys))"
    using sx sy by (simp_all add: sorted_wrt_rev sorted_wrt_map)
  moreover have "distinct (rev (map key xs))" "distinct (rev (map key ys))"
    using d dy by simp_all
  moreover have "set (rev (map key xs)) = set (rev (map key ys))"
    using mk by (metis mset_eq_setD set_rev)
  ultimately have "rev (map key xs) = rev (map key ys)"
    by (metis sorted_distinct_set_unique)
  then have eq: "map key xs = map key ys" by simp
  have "set xs = set ys" using m by (rule mset_eq_setD)
  moreover have "inj_on key (set xs)" using d by (simp add: distinct_map)
  ultimately have "inj_on key (set xs \<union> set ys)" by simp
  then show ?thesis using eq by (simp add: inj_on_map_eq_map)
qed

lemma touched_after_le: "(\<not> touched_after b a) = (LastTouch b \<le> LastTouch a)"
  by (auto simp: touched_after_def)

lemma valid_run_D:
  assumes "valid_run report rn"
  shows "range_order (Histories report) (hist_order rn)"
    and "range_order (accumulate (hist_order rn) report) (file_order rn)"
    and "fmlookup (accumulate (hist_order rn) report) p = Some bm \<Longrightarrow> range_order bm (bead_order rn p)"
    and "sort_Slice_ok touched_after (sort_Slice rn touched_after)"
proof -
  show 1: "range_order (Histories report) (hist_order rn)"
    and 2: "range_order (accumulate (hist_order rn) report) (file_order rn)"
    and "sort_Slice_ok touched_after (sort_Slice rn touched_after)"
    using assms by (simp_all add: valid_run_def)
  assume bm: "fmlookup (accumulate (hist_order rn) report) p = Some bm"
  then have "p \<in> set (file_order rn)" using 2 by (auto simp: range_order_def fmlookup_dom'_iff)
  then show "range_order bm (bead_order rn p)"
    using assms bm by (auto simp: valid_run_def)
qed

text \<open>What a valid run stores for a path: the references of its bead map, sorted.\<close>

lemma built_refs:
  assumes v: "valid_run report rn"
      and rs: "fmlookup (FileToBeads (BuildFileIndex rn (Some report))) p = Some rs"
  shows "\<exists>bm. fmlookup (accumulate (hist_order rn) report) p = Some bm \<and>
              mset rs = image_mset (\<lambda>k. the (fmlookup bm k)) (mset_set (fmdom' bm)) \<and>
              sorted_wrt (\<lambda>a b. LastTouch b \<le> LastTouch a) rs"
proof -
  let ?fbm = "accumulate (hist_order rn) report"
  from rs have c: "converted rn ?fbm p = Some rs"
    by (simp add: FileToBeads_built[OF valid_run_D(2)[OF v]])
  then obtain bm where bm: "fmlookup ?fbm p = Some bm"
    and rs': "rs = sort_Slice rn touched_after (List.map_filter (fmlookup bm) (bead_order rn p))"
    by (auto simp: converted_def split: option.splits)
  note ok = valid_run_D(4)[OF v]
  have "mset rs = image_mset (\<lambda>k. the (fmlookup bm k)) (mset_set (fmdom' bm))"
    unfolding rs' sort_Slice_ok_D(1)[OF ok]
    by (rule mset_map_filter_range[OF valid_run_D(3)[OF v bm]])
  moreover have "sorted_wrt (\<lambda>a b. LastTouch b \<le> LastTouch a) rs"
    using sort_Slice_ok_D(2)[OF ok, of "List.map_filter (fmlookup bm) (bead_order rn p)"]
    unfolding rs' touched_after_le .
  ultimately show ?thesis using bm by blast
qed

lemma built_refs_look:
  assumes v: "valid_run report rn"
      and rs: "fmlookup (FileToBeads (BuildFileIndex rn (Some report))) p = Some rs"
      and r: "r \<in> set rs"
  shows "look (accumulate (hist_order rn) report) p (BeadID r) = Some r"
proof -
  from built_refs[OF v rs] obtain bm where bm: "fmlookup (accumulate (hist_order rn) report) p = Some bm"
    and m: "mset rs = image_mset (\<lambda>k. the (fmlookup bm k)) (mset_set (fmdom' bm))" by blast
  from r have "r \<in># mset rs" by simp
  then obtain k where k: "k \<in> fmdom' bm" and rk: "r = the (fmlookup bm k)"
    unfolding m by auto
  then have "fmlookup bm k = Some r" by (auto simp: fmlookup_dom'_iff)
  then have l: "look (accumulate (hist_order rn) report) p k = Some r"
    using bm by (simp add: look_def)
  from look_accumulate_snapshot[OF valid_run_D(1)[OF v] l] have "BeadID r = k" by simp
  then show ?thesis using l by simp
qed

lemma built_refs_snapshot:
  assumes v: "valid_run report rn"
      and rs: "fmlookup (FileToBeads (BuildFileIndex rn (Some report))) p = Some rs"
      and r: "r \<in> set rs"
  shows "\<exists>h. fmlookup (Histories report) (BeadID r) = Some h \<and>
             BeadReference.Status r = BeadHistory.Status h \<and>
             BeadReference.Title r = BeadHistory.Title h"
  using look_accumulate_snapshot[OF valid_run_D(1)[OF v] built_refs_look[OF v rs r]] by simp

lemma built_refs_distinct:
  assumes v: "valid_run report rn"
      and rs: "fmlookup (FileToBeads (BuildFileIndex rn (Some report))) p = Some rs"
  shows "distinct (map BeadID rs)"
proof -
  from built_refs[OF v rs] obtain bm where
    bm: "fmlookup (accumulate (hist_order rn) report) p = Some bm" and
    m: "mset rs = image_mset (\<lambda>k. the (fmlookup bm k)) (mset_set (fmdom' bm))" by blast
  have id: "BeadID (the (fmlookup bm k)) = k" if "k \<in># mset_set (fmdom' bm)" for k
  proof -
    from that have "k \<in> fmdom' bm" by simp
    then obtain r where r: "fmlookup bm k = Some r" by (auto simp: fmlookup_dom'_iff)
    then have "look (accumulate (hist_order rn) report) p k = Some r"
      using bm by (simp add: look_def)
    from look_accumulate_snapshot[OF valid_run_D(1)[OF v] this] show ?thesis
      using r by simp
  qed
  have "mset (map BeadID rs) = image_mset BeadID (mset rs)" by simp
  also have "\<dots> = image_mset (\<lambda>k. BeadID (the (fmlookup bm k))) (mset_set (fmdom' bm))"
    unfolding m by (simp add: multiset.map_comp comp_def)
  also have "\<dots> = image_mset (\<lambda>k. k) (mset_set (fmdom' bm))"
    by (rule image_mset_cong) (rule id)
  finally have e: "mset (map BeadID rs) = mset_set (fmdom' bm)" by simp
  obtain ks where ks: "set ks = fmdom' bm" "distinct ks"
    using finite_distinct_list[of "fmdom' bm"] by auto
  from mset_set_set[OF ks(2)] have "mset_set (fmdom' bm) = mset ks" by (simp only: ks(1))
  then have "mset (map BeadID rs) = mset ks" using e by simp
  then show ?thesis using ks(2) by (metis mset_eq_imp_distinct_iff)
qed

section \<open>Example runs\<close>

lemma valid_run_21: "valid_run two_beads run_21"
proof -
  have "sort_Slice_ok touched_after (sort_Slice run_21 touched_after)"
    using insertion_sort_touched_after by (simp add: run_21_def)
  moreover have "range_order (Histories two_beads) (hist_order run_21)" by code_simp
  moreover have "range_order (accumulate (hist_order run_21) two_beads) (file_order run_21)"
    by code_simp
  moreover have "(\<forall>p \<in> set (file_order run_21).
        case fmlookup (accumulate (hist_order run_21) two_beads) p of
          None \<Rightarrow> False
        | Some beadMap \<Rightarrow> range_order beadMap (bead_order run_21 p))" by code_simp
  ultimately show ?thesis unfolding valid_run_def by blast
qed

section \<open>Construction from a nil report\<close>

lemma BuildFileIndex_nil:
  "BuildFileIndex rn None =
     \<lparr>FileToBeads = fmempty,
      Stats = \<lparr>TotalFiles = 0, TotalBeadLinks = 0, FilesWithMultipleBeads = 0\<rparr>\<rparr>"
  by (simp add: BuildFileIndex_def)

text \<open>
  Claim C1: for a nil report \<^verbatim>\<open>BuildFileIndex\<close> returns the empty index with all three
  statistics zero, and \<^verbatim>\<open>NewFileLookup(nil)\<close> succeeds likewise. The first half holds.
  \<^verbatim>\<open>NewFileLookup\<close> passes the nil report to \<^verbatim>\<open>BuildFileIndex\<close>, which guards it, and
  then reads \<^verbatim>\<open>report.Histories\<close> through the nil pointer: the call panics.
\<close>

theorem NewFileLookup_nil_panics:
  "FileToBeads (BuildFileIndex rn None) = fmempty \<and>
   Stats (BuildFileIndex rn None) =
     \<lparr>TotalFiles = 0, TotalBeadLinks = 0, FilesWithMultipleBeads = 0\<rparr> \<and>
   NewFileLookup rn None = Inl NilPointerDereference"
  by (simp add: BuildFileIndex_nil NewFileLookup_def)

section \<open>Statistics of a built index\<close>

text \<open>
  Claim C8: in every index that \<^verbatim>\<open>BuildFileIndex\<close> returns (for a nil report, or for a
  report under any run the Go runtime can take), \<^verbatim>\<open>TotalFiles\<close> is the number of paths
  of the mapping, \<^verbatim>\<open>TotalBeadLinks\<close> the sum of the lengths of the reference lists, and
  \<^verbatim>\<open>FilesWithMultipleBeads\<close> the number of paths whose list is longer than one.
\<close>

theorem BuildFileIndex_stats_derived:
  assumes "case report of None \<Rightarrow> True | Some r \<Rightarrow> valid_run r rn"
  shows "TotalFiles (Stats (BuildFileIndex rn report)) =
           int (card (fmdom' (FileToBeads (BuildFileIndex rn report)))) \<and>
         TotalBeadLinks (Stats (BuildFileIndex rn report)) =
           (\<Sum>p \<in> fmdom' (FileToBeads (BuildFileIndex rn report)).
              int (length (the (fmlookup (FileToBeads (BuildFileIndex rn report)) p)))) \<and>
         FilesWithMultipleBeads (Stats (BuildFileIndex rn report)) =
           int (card {p \<in> fmdom' (FileToBeads (BuildFileIndex rn report)).
                      1 < length (the (fmlookup (FileToBeads (BuildFileIndex rn report)) p))})"
proof (cases report)
  case None
  then show ?thesis by (simp add: BuildFileIndex_nil)
next
  case (Some r)
  with assms have "valid_run r rn" by simp
  from Stats_built[OF valid_run_D(2)[OF this]] show ?thesis
    unfolding Some by blast
qed

theorem BuildFileIndex_stats_derived_witness:
  "valid_run two_beads run_12 \<and>
   TotalFiles (Stats (BuildFileIndex run_12 (Some two_beads))) = 3 \<and>
   card (fmdom' (FileToBeads (BuildFileIndex run_12 (Some two_beads)))) = 3 \<and>
   TotalBeadLinks (Stats (BuildFileIndex run_12 (Some two_beads))) = 5 \<and>
   (\<Sum>p \<in> fmdom' (FileToBeads (BuildFileIndex run_12 (Some two_beads))).
      int (length (the (fmlookup (FileToBeads (BuildFileIndex run_12 (Some two_beads))) p)))) = 5 \<and>
   FilesWithMultipleBeads (Stats (BuildFileIndex run_12 (Some two_beads))) = 2 \<and>
   card {p \<in> fmdom' (FileToBeads (BuildFileIndex run_12 (Some two_beads))).
           1 < length (the (fmlookup (FileToBeads (BuildFileIndex run_12 (Some two_beads))) p))} = 2"
proof -
  have v: "case Some two_beads of None \<Rightarrow> True | Some r \<Rightarrow> valid_run r run_12"
    using valid_run_12 by simp
  have s: "TotalFiles (Stats (BuildFileIndex run_12 (Some two_beads))) = 3"
          "TotalBeadLinks (Stats (BuildFileIndex run_12 (Some two_beads))) = 5"
          "FilesWithMultipleBeads (Stats (BuildFileIndex run_12 (Some two_beads))) = 2"
    by code_simp+
  from BuildFileIndex_stats_derived[OF v] s valid_run_12 show ?thesis
    by (simp only:) simp
qed

section \<open>Two runs on one report\<close>

lemma runs_agree_refs:
  assumes v1: "valid_run report rn1" and v2: "valid_run report rn2"
      and rs1: "fmlookup (FileToBeads (BuildFileIndex rn1 (Some report))) p = Some rs1"
  shows "sorted_wrt (\<lambda>a b. LastTouch b \<le> LastTouch a) rs1 \<and>
         (\<exists>rs2. fmlookup (FileToBeads (BuildFileIndex rn2 (Some report))) p = Some rs2 \<and>
                mset rs2 = mset rs1 \<and> (distinct (map LastTouch rs1) \<longrightarrow> rs2 = rs1))"
proof -
  have fbm: "accumulate (hist_order rn1) report = accumulate (hist_order rn2) report"
    by (rule accumulate_order_irrelevant[OF valid_run_D(1)[OF v1] valid_run_D(1)[OF v2]])
  from built_refs[OF v1 rs1] obtain bm where
    bm: "fmlookup (accumulate (hist_order rn1) report) p = Some bm" and
    m1: "mset rs1 = image_mset (\<lambda>k. the (fmlookup bm k)) (mset_set (fmdom' bm))" and
    s1: "sorted_wrt (\<lambda>a b. LastTouch b \<le> LastTouch a) rs1" by blast
  from bm have "converted rn2 (accumulate (hist_order rn2) report) p \<noteq> None"
    by (simp add: converted_def fbm[symmetric])
  then obtain rs2 where rs2: "fmlookup (FileToBeads (BuildFileIndex rn2 (Some report))) p = Some rs2"
    by (auto simp: FileToBeads_built[OF valid_run_D(2)[OF v2]])
  from built_refs[OF v2 rs2] bm have
    m2: "mset rs2 = image_mset (\<lambda>k. the (fmlookup bm k)) (mset_set (fmdom' bm))" and
    s2: "sorted_wrt (\<lambda>a b. LastTouch b \<le> LastTouch a) rs2"
    by (auto simp: fbm[symmetric])
  have m: "mset rs1 = mset rs2" using m1 m2 by simp
  have "rs2 = rs1" if "distinct (map LastTouch rs1)"
    using sorted_desc_unique[OF m s1 s2 that] by simp
  then show ?thesis using s1 rs2 m by auto
qed

lemma runs_agree_dom:
  assumes v1: "valid_run report rn1" and v2: "valid_run report rn2"
  shows "fmdom' (FileToBeads (BuildFileIndex rn1 (Some report))) =
         fmdom' (FileToBeads (BuildFileIndex rn2 (Some report)))"
proof -
  have fbm: "accumulate (hist_order rn1) report = accumulate (hist_order rn2) report"
    by (rule accumulate_order_irrelevant[OF valid_run_D(1)[OF v1] valid_run_D(1)[OF v2]])
  show ?thesis
    using valid_run_D(2)[OF v1] valid_run_D(2)[OF v2]
    by (simp add: fmdom'_built range_order_def fbm)
qed

lemma runs_agree_length:
  assumes v1: "valid_run report rn1" and v2: "valid_run report rn2"
      and p: "p \<in> fmdom' (FileToBeads (BuildFileIndex rn1 (Some report)))"
  shows "length (the (fmlookup (FileToBeads (BuildFileIndex rn1 (Some report))) p)) =
         length (the (fmlookup (FileToBeads (BuildFileIndex rn2 (Some report))) p))"
proof -
  from p obtain rs1 where rs1: "fmlookup (FileToBeads (BuildFileIndex rn1 (Some report))) p = Some rs1"
    by (auto simp: fmlookup_dom'_iff)
  from runs_agree_refs[OF v1 v2 rs1] obtain rs2 where
    "fmlookup (FileToBeads (BuildFileIndex rn2 (Some report))) p = Some rs2" "mset rs2 = mset rs1"
    by blast
  then show ?thesis using rs1 by (auto dest: mset_eq_length)
qed

lemma runs_agree_Stats:
  assumes v1: "valid_run report rn1" and v2: "valid_run report rn2"
  shows "Stats (BuildFileIndex rn1 (Some report)) = Stats (BuildFileIndex rn2 (Some report))"
proof -
  let ?i1 = "BuildFileIndex rn1 (Some report)" and ?i2 = "BuildFileIndex rn2 (Some report)"
  note d = runs_agree_dom[OF v1 v2]
  note l = runs_agree_length[OF v1 v2]
  have "TotalFiles (Stats ?i1) = TotalFiles (Stats ?i2)"
    by (simp add: Stats_built(1)[OF valid_run_D(2)[OF v1]] Stats_built(1)[OF valid_run_D(2)[OF v2]] d)
  moreover have "TotalBeadLinks (Stats ?i1) = TotalBeadLinks (Stats ?i2)"
    unfolding Stats_built(2)[OF valid_run_D(2)[OF v1]] Stats_built(2)[OF valid_run_D(2)[OF v2]] d[symmetric]
    by (rule sum.cong[OF refl]) (simp add: l)
  moreover have "FilesWithMultipleBeads (Stats ?i1) = FilesWithMultipleBeads (Stats ?i2)"
  proof -
    have "{p \<in> fmdom' (FileToBeads ?i1). 1 < length (the (fmlookup (FileToBeads ?i1) p))} =
          {p \<in> fmdom' (FileToBeads ?i2). 1 < length (the (fmlookup (FileToBeads ?i2) p))}"
      using l d by auto
    then show ?thesis
      by (simp only: Stats_built(3)[OF valid_run_D(2)[OF v1]] Stats_built(3)[OF valid_run_D(2)[OF v2]])
  qed
  ultimately show ?thesis by (intro FileIndexStats.equality) simp_all
qed

text \<open>
  Claim C3, as stated: two runs on one report return equal indexes, and references with
  equal last-touch instants keep their accumulation order. Both beads of \<open>two_beads\<close>
  touched \<^verbatim>\<open>pkg/a.go\<close> last at instant 100. The conversion loop ranges over a Go map,
  so it hands the two references to the sort in either order, and the sort leaves a tie
  as it finds it: one run stores \<^verbatim>\<open>bv-1\<close> first, another \<^verbatim>\<open>bv-2\<close>.
\<close>

theorem BuildFileIndex_tie_order_differs:
  "valid_run two_beads run_12 \<and> valid_run two_beads run_21 \<and>
   map BeadID (the (fmlookup (FileToBeads (BuildFileIndex run_12 (Some two_beads))) ''pkg/a.go''))
     = [''bv-1'', ''bv-2''] \<and>
   map BeadID (the (fmlookup (FileToBeads (BuildFileIndex run_21 (Some two_beads))) ''pkg/a.go''))
     = [''bv-2'', ''bv-1''] \<and>
   BuildFileIndex run_12 (Some two_beads) \<noteq> BuildFileIndex run_21 (Some two_beads)"
proof -
  have a: "map BeadID (the (fmlookup (FileToBeads (BuildFileIndex run_12 (Some two_beads))) ''pkg/a.go''))
     = [''bv-1'', ''bv-2'']" by code_simp
  have b: "map BeadID (the (fmlookup (FileToBeads (BuildFileIndex run_21 (Some two_beads))) ''pkg/a.go''))
     = [''bv-2'', ''bv-1'']" by code_simp
  from a b have "BuildFileIndex run_12 (Some two_beads) \<noteq> BuildFileIndex run_21 (Some two_beads)"
    by auto
  with a b valid_run_12 valid_run_21 show ?thesis by blast
qed

text \<open>
  Claim C3, amended: two runs on one report index the same paths with the same
  statistics; each reference list is sorted by last touch, latest first; the lists of
  the two runs for a path hold the same references, and they are equal when no two
  references of the list have the same last-touch instant. The order of references with
  equal last-touch instants is not determined.
\<close>

theorem BuildFileIndex_runs_agree:
  assumes "valid_run report rn1" and "valid_run report rn2"
  shows "fmdom' (FileToBeads (BuildFileIndex rn1 (Some report))) =
           fmdom' (FileToBeads (BuildFileIndex rn2 (Some report))) \<and>
         Stats (BuildFileIndex rn1 (Some report)) = Stats (BuildFileIndex rn2 (Some report)) \<and>
         (\<forall>p rs1. fmlookup (FileToBeads (BuildFileIndex rn1 (Some report))) p = Some rs1 \<longrightarrow>
            sorted_wrt (\<lambda>a b. LastTouch b \<le> LastTouch a) rs1 \<and>
            (\<exists>rs2. fmlookup (FileToBeads (BuildFileIndex rn2 (Some report))) p = Some rs2 \<and>
                   mset rs2 = mset rs1 \<and> (distinct (map LastTouch rs1) \<longrightarrow> rs2 = rs1)))"
  using runs_agree_dom[OF assms] runs_agree_Stats[OF assms] runs_agree_refs[OF assms] by blast

theorem BuildFileIndex_runs_agree_witness:
  "valid_run two_beads run_12 \<and> valid_run two_beads run_21 \<and>
   fmlookup (FileToBeads (BuildFileIndex run_12 (Some two_beads))) ''pkg/c.go'' =
     Some [\<lparr>BeadID = ''bv-2'', Title = ''Fix lookup'', Status = ''closed'',
            CommitSHAs = [''9f8e7d6''], LastTouch = 200, TotalChanges = 5\<rparr>,
           \<lparr>BeadID = ''bv-1'', Title = ''Add index'', Status = ''open'',
            CommitSHAs = [''0a1b2c3''], LastTouch = 150, TotalChanges = 2\<rparr>] \<and>
   fmlookup (FileToBeads (BuildFileIndex run_21 (Some two_beads))) ''pkg/c.go'' =
     fmlookup (FileToBeads (BuildFileIndex run_12 (Some two_beads))) ''pkg/c.go'' \<and>
   Stats (BuildFileIndex run_12 (Some two_beads)) = Stats (BuildFileIndex run_21 (Some two_beads))"
proof -
  let ?rs = "[\<lparr>BeadID = ''bv-2'', Title = ''Fix lookup'', Status = ''closed'',
            CommitSHAs = [''9f8e7d6''], LastTouch = 200, TotalChanges = 5\<rparr>,
           \<lparr>BeadID = ''bv-1'', Title = ''Add index'', Status = ''open'',
            CommitSHAs = [''0a1b2c3''], LastTouch = 150, TotalChanges = 2\<rparr>]"
  note agree = BuildFileIndex_runs_agree[OF valid_run_12 valid_run_21]
  have l: "fmlookup (FileToBeads (BuildFileIndex run_12 (Some two_beads))) ''pkg/c.go'' = Some ?rs"
    by code_simp
  have d: "distinct (map LastTouch ?rs)" by simp
  from agree l d
  have "fmlookup (FileToBeads (BuildFileIndex run_21 (Some two_beads))) ''pkg/c.go'' = Some ?rs"
    by blast
  moreover from agree
  have "Stats (BuildFileIndex run_12 (Some two_beads)) = Stats (BuildFileIndex run_21 (Some two_beads))"
    by blast
  ultimately show ?thesis using l valid_run_12 valid_run_21 by simp
qed

end
